theory Spec2Isabelle
  imports Main
begin

section \<open>Data model\<close>

text \<open>
  The payload interface \<^verbatim>\<open>CacheItem\<close> has one method, \<^verbatim>\<open>Size() int\<close>. A payload is
  modelled by an identity and the size it reports; Go's interface comparison
  \<^verbatim>\<open>v == item.cacheItem\<close> (pointer identity for the pointer payloads of the test and of
  the file cache) is equality of these values; a nil payload is not modelled.
\<close>

datatype CacheItem = CacheItem (ident: nat) (Size: int)

text \<open>
  Go's \<^verbatim>\<open>int\<close> is taken at its 64-bit width. Sizes, the capacity and the size counter
  are integers; every sum and difference the code computes on them is reduced to the
  two's complement range from \<open>- 2 ^ 63\<close> up to \<open>2 ^ 63 - 1\<close>, as the machine
  addition and subtraction do. Comparisons are on the values as they are.
\<close>

definition wrap :: "int \<Rightarrow> int" where
  "wrap x = (x + 2 ^ 63) mod 2 ^ 64 - 2 ^ 63"

text \<open>
  A \<^verbatim>\<open>*lruCacheItem\<close> is an address or nil (\<open>None\<close>). Go is garbage collected, so a
  non-nil pointer always refers to a live object: the store is total on addresses and the
  only failing dereference is that of nil.
\<close>

type_synonym addr = nat

record lruCacheItem =
  cacheItem :: CacheItem
  key :: string
  prev :: "addr option"
  nxt :: "addr option"

text \<open>
  The struct \<^verbatim>\<open>lruCache\<close>, together with the store its pointers live in and the next
  unused address. The mutex is left out: the model is of one call at a time.
\<close>

record lruCache =
  keyValMap :: "string \<rightharpoonup> addr"
  head :: "addr option"
  tail :: "addr option"
  maxSize :: int
  curSize :: int
  store :: "addr \<Rightarrow> lruCacheItem"
  nextAddr :: addr

datatype panic = NilDereference

datatype error = ErrorExceedsMaxSize

definition noItem :: lruCacheItem where
  "noItem = \<lparr>cacheItem = CacheItem 0 0, key = [], prev = None, nxt = None\<rparr>"

definition CreateLRUCache :: "int \<Rightarrow> lruCache" where
  "CreateLRUCache maxsize =
     \<lparr>keyValMap = Map.empty, head = None, tail = None, maxSize = maxsize, curSize = 0,
      store = (\<lambda>_. noItem), nextAddr = 0\<rparr>"

text \<open>Writes to the two link fields of the object at an address.\<close>

definition set_prev :: "addr \<Rightarrow> addr option \<Rightarrow> lruCache \<Rightarrow> lruCache" where
  "set_prev a p c = c\<lparr>store := (store c)(a := (store c a)\<lparr>prev := p\<rparr>)\<rparr>"

definition set_nxt :: "addr \<Rightarrow> addr option \<Rightarrow> lruCache \<Rightarrow> lruCache" where
  "set_nxt a n c = c\<lparr>store := (store c)(a := (store c a)\<lparr>nxt := n\<rparr>)\<rparr>"

text \<open>The composite literal \<^verbatim>\<open>&lruCacheItem { cacheItem: v, key: k }\<close>.\<close>

definition new_item :: "string \<Rightarrow> CacheItem \<Rightarrow> lruCache \<Rightarrow> addr \<times> lruCache" where
  "new_item k v c =
     (nextAddr c,
      c\<lparr>store := (store c)(nextAddr c := \<lparr>cacheItem = v, key = k, prev = None, nxt = None\<rparr>),
        nextAddr := Suc (nextAddr c)\<rparr>)"

section \<open>The cache of lrucache.go\<close>

text \<open>\<^verbatim>\<open>func (this *lruCache) Remove(key string)\<close>, lines 159 to 198.\<close>

definition Remove :: "string \<Rightarrow> lruCache \<Rightarrow> panic + lruCache" where
  "Remove k c =
     (case keyValMap c k of
        None \<Rightarrow> Inr c
      | Some it \<Rightarrow>
          let c1 = c\<lparr>keyValMap := (keyValMap c)(k := None)\<rparr>;
              c2 = c1\<lparr>curSize := wrap (curSize c1 - Size (cacheItem (store c1 it)))\<rparr>
          in if Some it = head c2 then
               (case nxt (store c2 it) of
                  Some n \<Rightarrow> Inr ((set_prev n None c2)\<lparr>head := Some n\<rparr>)
                | None \<Rightarrow> Inr (c2\<lparr>head := None, tail := None\<rparr>))
             else if Some it = tail c2 then
               (case prev (store c2 it) of
                  Some p \<Rightarrow> Inr ((set_nxt p None c2)\<lparr>tail := Some p\<rparr>)
                | None \<Rightarrow> Inr (c2\<lparr>head := None, tail := None\<rparr>))
             else
               (case prev (store c2 it) of
                  None \<Rightarrow> Inl NilDereference
                | Some p \<Rightarrow>
                    let c3 = set_nxt p (nxt (store c2 it)) c2
                    in (case nxt (store c3 it) of
                          None \<Rightarrow> Inl NilDereference
                        | Some n \<Rightarrow> Inr (set_prev n (prev (store c3 it)) c3))))"

text \<open>The eviction loop of \<^verbatim>\<open>Add\<close>, lines 95 to 108. It need not end on every state.\<close>

partial_function (option) evict :: "CacheItem \<Rightarrow> lruCache \<Rightarrow> (panic + lruCache) option" where
  "evict v c =
     (if wrap (curSize c + Size v) > maxSize c then
        (case tail c of
           None \<Rightarrow> Some (Inl NilDereference)
         | Some t \<Rightarrow>
             let c1 = c\<lparr>keyValMap := (keyValMap c)(key (store c t) := None)\<rparr>;
                 c2 = c1\<lparr>curSize := wrap (curSize c1 - Size (cacheItem (store c1 t)))\<rparr>
             in (case prev (store c2 t) of
                   Some newTail \<Rightarrow> evict v ((set_nxt newTail None c2)\<lparr>tail := Some newTail\<rparr>)
                 | None \<Rightarrow> evict v (c2\<lparr>head := None, tail := None\<rparr>)))
      else Some (Inr c))"

declare evict.simps [code]

text \<open>Lines 110 to 125 of \<^verbatim>\<open>Add\<close>: the new item enters the map and becomes the head.\<close>

definition link_head :: "string \<Rightarrow> addr \<Rightarrow> lruCache \<Rightarrow> lruCache" where
  "link_head k lruItem c =
     (let c1 = c\<lparr>keyValMap := (keyValMap c)(k \<mapsto> lruItem)\<rparr>
      in case head c1 of
           None \<Rightarrow> c1\<lparr>head := Some lruItem, tail := Some lruItem\<rparr>
         | Some h \<Rightarrow> (set_prev h (Some lruItem) (set_nxt lruItem (Some h) c1))\<lparr>head := Some lruItem\<rparr>)"

text \<open>\<^verbatim>\<open>func (this *lruCache) Add(k string, v CacheItem) error\<close>, lines 78 to 126.\<close>

definition Add :: "string \<Rightarrow> CacheItem \<Rightarrow> lruCache \<Rightarrow> (panic + error option \<times> lruCache) option" where
  "Add k v c =
     (case Remove k c of
        Inl p \<Rightarrow> Some (Inl p)
      | Inr c1 \<Rightarrow>
          (case new_item k v c1 of
             (lruItem, c2) \<Rightarrow>
               if Size v > maxSize c2 then Some (Inr (Some ErrorExceedsMaxSize, c2))
               else (case evict v c2 of
                       None \<Rightarrow> None
                     | Some (Inl p) \<Rightarrow> Some (Inl p)
                     | Some (Inr c3) \<Rightarrow> Some (Inr (None, link_head k lruItem c3)))))"

text \<open>\<^verbatim>\<open>func (this *lruCache) Get(key string) (CacheItem, bool)\<close>, lines 131 to 156.\<close>

definition Get :: "string \<Rightarrow> lruCache \<Rightarrow> panic + (CacheItem option \<times> bool) \<times> lruCache" where
  "Get k c =
     (case keyValMap c k of
        Some val \<Rightarrow>
          if head c \<noteq> Some val then
            (case prev (store c val) of
               None \<Rightarrow> Inl NilDereference
             | Some p \<Rightarrow>
                 let c1 = set_nxt p (nxt (store c val)) c;
                     c2 = (case nxt (store c1 val) of
                             Some n \<Rightarrow> set_prev n (prev (store c1 val)) c1
                           | None \<Rightarrow> c1);
                     c3 = set_prev val None c2;
                     c4 = set_nxt val (head c3) c3
                 in (case head c4 of
                       None \<Rightarrow> Inl NilDereference
                     | Some h \<Rightarrow>
                         let c5 = (set_prev h (Some val) c4)\<lparr>head := Some val\<rparr>
                         in Inr ((Some (cacheItem (store c5 val)), True), c5)))
          else Inr ((Some (cacheItem (store c val)), True), c)
      | None \<Rightarrow> Inr ((None, False), c))"

section \<open>The cache of the second source file\<close>

text \<open>
  \<^verbatim>\<open>func (this *lruCacheItem) Remove(cache *lruCache)\<close>, lines 49 to 71. The receiver
  may be nil (the eviction loop calls it on \<^verbatim>\<open>this.tail\<close>); its first field read then
  panics.
\<close>

definition lruCacheItem_Remove :: "addr option \<Rightarrow> lruCache \<Rightarrow> panic + lruCache" where
  "lruCacheItem_Remove this c =
     (case this of
        None \<Rightarrow> Inl NilDereference
      | Some t \<Rightarrow>
          let c1 = (case prev (store c t) of
                      Some p \<Rightarrow> set_nxt p (nxt (store c t)) c
                    | None \<Rightarrow> c);
              c2 = (case nxt (store c1 t) of
                      Some n \<Rightarrow> set_prev n (prev (store c1 t)) c1
                    | None \<Rightarrow> c1);
              c3 = (if Some t = head c2 then c2\<lparr>head := nxt (store c2 t)\<rparr> else c2);
              c4 = (if Some t = tail c3 then c3\<lparr>tail := prev (store c3 t)\<rparr> else c3);
              c5 = c4\<lparr>curSize := wrap (curSize c4 - Size (cacheItem (store c4 t)))\<rparr>
          in Inr (c5\<lparr>keyValMap := (keyValMap c5)(key (store c5 t) := None)\<rparr>))"

text \<open>
  \<^verbatim>\<open>func (this *lruCacheItem) Add(cache *lruCache)\<close>, lines 77 to 95. Every call passes
  a non-nil receiver: an item read from the map or a fresh one.
\<close>

definition lruCacheItem_Add :: "addr \<Rightarrow> lruCache \<Rightarrow> lruCache" where
  "lruCacheItem_Add this c =
     (let c1 = (case head c of
                  None \<Rightarrow> c\<lparr>head := Some this, tail := Some this\<rparr>
                | Some h \<Rightarrow> (set_nxt this (Some h) (set_prev h (Some this) c))\<lparr>head := Some this\<rparr>);
          c2 = c1\<lparr>curSize := wrap (curSize c1 + Size (cacheItem (store c1 this)))\<rparr>
      in c2\<lparr>keyValMap := (keyValMap c2)(key (store c2 this) \<mapsto> this)\<rparr>)"

text \<open>The eviction loop of the second \<^verbatim>\<open>Add\<close>, lines 159 to 161.\<close>

partial_function (option) evict2 :: "CacheItem \<Rightarrow> lruCache \<Rightarrow> (panic + lruCache) option" where
  "evict2 v c =
     (if wrap (curSize c + Size v) > maxSize c then
        (case lruCacheItem_Remove (tail c) c of
           Inl p \<Rightarrow> Some (Inl p)
         | Inr c1 \<Rightarrow> evict2 v c1)
      else Some (Inr c))"

declare evict2.simps [code]

text \<open>Lines 153 to 166 of the second \<^verbatim>\<open>Add\<close>: size check, eviction, insertion.\<close>

definition admit2 :: "string \<Rightarrow> CacheItem \<Rightarrow> lruCache \<Rightarrow> (panic + error option \<times> lruCache) option" where
  "admit2 k v c =
     (if Size v > maxSize c then Some (Inr (Some ErrorExceedsMaxSize, c))
      else (case evict2 v c of
              None \<Rightarrow> None
            | Some (Inl p) \<Rightarrow> Some (Inl p)
            | Some (Inr c1) \<Rightarrow>
                (case new_item k v c1 of
                   (lruItem, c2) \<Rightarrow> Some (Inr (None, lruCacheItem_Add lruItem c2)))))"

text \<open>\<^verbatim>\<open>func (this *lruCache) Add(k string, v CacheItem) error\<close>, lines 135 to 167.\<close>

definition Add2 :: "string \<Rightarrow> CacheItem \<Rightarrow> lruCache \<Rightarrow> (panic + error option \<times> lruCache) option" where
  "Add2 k v c =
     (case keyValMap c k of
        Some item \<Rightarrow>
          (case lruCacheItem_Remove (Some item) c of
             Inl p \<Rightarrow> Some (Inl p)
           | Inr c1 \<Rightarrow>
               if v = cacheItem (store c1 item) then Some (Inr (None, lruCacheItem_Add item c1))
               else admit2 k v c1)
      | None \<Rightarrow> admit2 k v c)"

text \<open>\<^verbatim>\<open>func (this *lruCache) Get(key string) (CacheItem, bool)\<close>, lines 172 to 186.\<close>

definition Get2 :: "string \<Rightarrow> lruCache \<Rightarrow> panic + (CacheItem option \<times> bool) \<times> lruCache" where
  "Get2 k c =
     (case keyValMap c k of
        Some item \<Rightarrow>
          (case lruCacheItem_Remove (Some item) c of
             Inl p \<Rightarrow> Inl p
           | Inr c1 \<Rightarrow>
               let c2 = lruCacheItem_Add item c1
               in Inr ((Some (cacheItem (store c2 item)), True), c2))
      | None \<Rightarrow> Inr ((None, False), c))"

text \<open>\<^verbatim>\<open>func (this *lruCache) Remove(key string)\<close>, lines 189 to 199.\<close>

definition Remove2 :: "string \<Rightarrow> lruCache \<Rightarrow> panic + lruCache" where
  "Remove2 k c =
     (case keyValMap c k of
        Some item \<Rightarrow> lruCacheItem_Remove (Some item) c
      | None \<Rightarrow> Inr c)"

section \<open>Sequences of public calls\<close>

datatype call = CallAdd string CacheItem | CallGet string | CallRemove string

datatype ret = RetAdd "error option" | RetGet "CacheItem option" bool | RetRemove

text \<open>
  One public call: its return value and the state it leaves. \<open>None\<close> is a call that does
  not return, \<open>Inl\<close> one that panics.
\<close>

fun step :: "call \<Rightarrow> lruCache \<Rightarrow> (panic + ret \<times> lruCache) option" where
  "step (CallAdd k v) c = map_option (map_sum id (\<lambda>(e, c'). (RetAdd e, c'))) (Add k v c)"
| "step (CallGet k) c = Some (map_sum id (\<lambda>((v, b), c'). (RetGet v b, c')) (Get k c))"
| "step (CallRemove k) c = Some (map_sum id (\<lambda>c'. (RetRemove, c')) (Remove k c))"

fun step2 :: "call \<Rightarrow> lruCache \<Rightarrow> (panic + ret \<times> lruCache) option" where
  "step2 (CallAdd k v) c = map_option (map_sum id (\<lambda>(e, c'). (RetAdd e, c'))) (Add2 k v c)"
| "step2 (CallGet k) c = Some (map_sum id (\<lambda>((v, b), c'). (RetGet v b, c')) (Get2 k c))"
| "step2 (CallRemove k) c = Some (map_sum id (\<lambda>c'. (RetRemove, c')) (Remove2 k c))"

text \<open>
  A sequence of calls, stopped by the first one that panics or does not return; the
  returned values are collected in call order.
\<close>

fun run_from ::
  "(call \<Rightarrow> lruCache \<Rightarrow> (panic + ret \<times> lruCache) option) \<Rightarrow> call list \<Rightarrow> lruCache \<Rightarrow>
     (panic + ret list \<times> lruCache) option" where
  "run_from st [] c = Some (Inr ([], c))"
| "run_from st (x # xs) c =
     (case st x c of
        None \<Rightarrow> None
      | Some (Inl p) \<Rightarrow> Some (Inl p)
      | Some (Inr (r, c1)) \<Rightarrow>
          (case run_from st xs c1 of
             None \<Rightarrow> None
           | Some (Inl p) \<Rightarrow> Some (Inl p)
           | Some (Inr (rs, c2)) \<Rightarrow> Some (Inr (r # rs, c2))))"

definition run :: "int \<Rightarrow> call list \<Rightarrow> (panic + ret list \<times> lruCache) option" where
  "run maxsize xs = run_from step xs (CreateLRUCache maxsize)"

definition run2 :: "int \<Rightarrow> call list \<Rightarrow> (panic + ret list \<times> lruCache) option" where
  "run2 maxsize xs = run_from step2 xs (CreateLRUCache maxsize)"

section \<open>Observations\<close>

text \<open>What a call or a sequence of calls returned, and the state it left if it returned.\<close>

definition returns :: "(panic + 'r \<times> lruCache) option \<Rightarrow> (panic + 'r) option" where
  "returns r = map_option (map_sum id fst) r"

definition final :: "(panic + 'r \<times> lruCache) option \<Rightarrow> lruCache option" where
  "final r = (case r of Some (Inr (x, c)) \<Rightarrow> Some c | _ \<Rightarrow> None)"

text \<open>The data model asks \<^verbatim>\<open>Size()\<close> to be non-negative.\<close>

fun nonneg_call :: "call \<Rightarrow> bool" where
  "nonneg_call (CallAdd k v) = (0 \<le> Size v)"
| "nonneg_call (CallGet k) = True"
| "nonneg_call (CallRemove k) = True"



text \<open>What each call returns on a cache that admits nothing.\<close>

fun rejected :: "call \<Rightarrow> ret" where
  "rejected (CallAdd k v) = RetAdd (Some ErrorExceedsMaxSize)"
| "rejected (CallGet k) = RetGet None False"
| "rejected (CallRemove k) = RetRemove"

text \<open>
  The state of a cache of capacity 10 after \<^verbatim>\<open>Add("a", x)\<close> and \<^verbatim>\<open>Add("b", y)\<close> with
  two payloads of size 4, as the second source file builds it.
\<close>

definition two_entries :: lruCache where
  "two_entries =
     \<lparr>keyValMap = [''a'' \<mapsto> 0, ''b'' \<mapsto> 1], head = Some 1, tail = Some 0, maxSize = 10,
      curSize = 8,
      store = (\<lambda>_. noItem)
        (0 := \<lparr>cacheItem = CacheItem 1 4, key = ''a'', prev = Some 1, nxt = None\<rparr>,
         1 := \<lparr>cacheItem = CacheItem 2 4, key = ''b'', prev = None, nxt = Some 0\<rparr>),
      nextAddr = 2\<rparr>"

text \<open>
  The calls of the repository's test: ten payloads of size 10 under the keys "0" to "9",
  then one more under "10". Each payload is an object of its own.
\<close>

definition scenario_adds :: "call list" where
  "scenario_adds =
     [CallAdd ''0'' (CacheItem 0 10), CallAdd ''1'' (CacheItem 1 10), CallAdd ''2'' (CacheItem 2 10),
      CallAdd ''3'' (CacheItem 3 10), CallAdd ''4'' (CacheItem 4 10), CallAdd ''5'' (CacheItem 5 10),
      CallAdd ''6'' (CacheItem 6 10), CallAdd ''7'' (CacheItem 7 10), CallAdd ''8'' (CacheItem 8 10),
      CallAdd ''9'' (CacheItem 9 10), CallAdd ''10'' (CacheItem 10 10)]"

text \<open>Whether a key is in the index, read without touching the recency list.\<close>

definition present :: "string \<Rightarrow> lruCache \<Rightarrow> bool" where
  "present k c = (keyValMap c k \<noteq> None)"

definition presence :: "string list \<Rightarrow> (panic + 'r \<times> lruCache) option \<Rightarrow> bool list option" where
  "presence ks r = map_option (\<lambda>c. map (\<lambda>k. present k c) ks) (final r)"

text \<open>The sum of the sizes of the entries of the index.\<close>

definition indexSize :: "lruCache \<Rightarrow> int" where
  "indexSize c = (\<Sum>k \<in> dom (keyValMap c). Size (cacheItem (store c (the (keyValMap c k)))))"

text \<open>Two of the structural conditions on the recency list.\<close>

definition head_has_no_pred :: "lruCache \<Rightarrow> bool" where
  "head_has_no_pred c = (case head c of None \<Rightarrow> True | Some h \<Rightarrow> prev (store c h) = None)"

definition tail_has_no_succ :: "lruCache \<Rightarrow> bool" where
  "tail_has_no_succ c = (case tail c of None \<Rightarrow> True | Some t \<Rightarrow> nxt (store c t) = None)"

text \<open>
  The recency list as a list of addresses: following \<^verbatim>\<open>next\<close> from \<^verbatim>\<open>head\<close> visits
  exactly these entries, each once, and ends at nil; \<^verbatim>\<open>tail\<close> is the last of them.
\<close>

fun path :: "(addr \<Rightarrow> addr option) \<Rightarrow> addr option \<Rightarrow> addr list \<Rightarrow> addr option \<Rightarrow> bool" where
  "path n p [] q = (p = q)"
| "path n p (a # as) q = (p = Some a \<and> path n (n a) as q)"

definition links :: "lruCache \<Rightarrow> addr \<Rightarrow> addr option" where
  "links c = (\<lambda>a. nxt (store c a))"

definition recency :: "lruCache \<Rightarrow> addr list \<Rightarrow> bool" where
  "recency c xs =
     (path (links c) (head c) xs None \<and> distinct xs \<and>
      tail c = (if xs = [] then None else Some (last xs)))"

section \<open>Basic facts\<close>


lemma wrap_range: "- (2 ^ 63) \<le> wrap x \<and> wrap x < 2 ^ 63"
  by (simp add: wrap_def)

lemma wrap_cancel: "- (2 ^ 63) \<le> x \<Longrightarrow> x < 2 ^ 63 \<Longrightarrow> wrap (wrap (x - s) + s) = x"
  by (simp add: wrap_def mod_simps)

lemma set_prev_fields [simp]:
  "keyValMap (set_prev a p c) = keyValMap c" "head (set_prev a p c) = head c"
  "tail (set_prev a p c) = tail c" "maxSize (set_prev a p c) = maxSize c"
  "curSize (set_prev a p c) = curSize c" "nextAddr (set_prev a p c) = nextAddr c"
  "cacheItem (store (set_prev a p c) b) = cacheItem (store c b)"
  "key (store (set_prev a p c) b) = key (store c b)"
  by (simp_all add: set_prev_def)

lemma set_nxt_fields [simp]:
  "keyValMap (set_nxt a p c) = keyValMap c" "head (set_nxt a p c) = head c"
  "tail (set_nxt a p c) = tail c" "maxSize (set_nxt a p c) = maxSize c"
  "curSize (set_nxt a p c) = curSize c" "nextAddr (set_nxt a p c) = nextAddr c"
  "cacheItem (store (set_nxt a p c) b) = cacheItem (store c b)"
  "key (store (set_nxt a p c) b) = key (store c b)"
  by (simp_all add: set_nxt_def)

lemma new_item_fields [simp]:
  "fst (new_item k v c) = nextAddr c"
  "keyValMap (snd (new_item k v c)) = keyValMap c" "head (snd (new_item k v c)) = head c"
  "tail (snd (new_item k v c)) = tail c" "maxSize (snd (new_item k v c)) = maxSize c"
  "curSize (snd (new_item k v c)) = curSize c" "nextAddr (snd (new_item k v c)) = Suc (nextAddr c)"
  "cacheItem (store (snd (new_item k v c)) b) = (if b = nextAddr c then v else cacheItem (store c b))"
  "key (store (snd (new_item k v c)) b) = (if b = nextAddr c then k else key (store c b))"
  by (simp_all add: new_item_def)

text \<open>The item method \<^verbatim>\<open>Remove\<close> on a non-nil receiver never panics; its effect on the index,
  the size counter and the payloads.\<close>

lemma lruCacheItem_Remove_Some:
  "\<exists>c'. lruCacheItem_Remove (Some t) c = Inr c' \<and>
        keyValMap c' = (keyValMap c)(key (store c t) := None) \<and>
        curSize c' = wrap (curSize c - Size (cacheItem (store c t))) \<and>
        maxSize c' = maxSize c \<and> nextAddr c' = nextAddr c \<and>
        (\<forall>b. cacheItem (store c' b) = cacheItem (store c b) \<and> key (store c' b) = key (store c b))"
  by (simp add: lruCacheItem_Remove_def Let_def split: option.splits)

lemma lruCacheItem_Add_fields:
  "keyValMap (lruCacheItem_Add t c) = (keyValMap c)(key (store c t) \<mapsto> t)"
  "curSize (lruCacheItem_Add t c) = wrap (curSize c + Size (cacheItem (store c t)))"
  "maxSize (lruCacheItem_Add t c) = maxSize c"
  "nextAddr (lruCacheItem_Add t c) = nextAddr c"
  "head (lruCacheItem_Add t c) = Some t"
  "cacheItem (store (lruCacheItem_Add t c) b) = cacheItem (store c b)"
  "key (store (lruCacheItem_Add t c) b) = key (store c b)"
  by (simp_all add: lruCacheItem_Add_def Let_def split: option.splits)

lemma Remove_frame:
  assumes "Remove k c = Inr c'"
  shows "keyValMap c' = (keyValMap c)(k := None)" and "maxSize c' = maxSize c"
    and "nextAddr c' = nextAddr c"
    and "curSize c' =
      (case keyValMap c k of
         None \<Rightarrow> curSize c
       | Some a \<Rightarrow> wrap (curSize c - Size (cacheItem (store c a))))"
    and "cacheItem (store c' b) = cacheItem (store c b)" and "key (store c' b) = key (store c b)"
  using assms by (auto simp: Remove_def Let_def split: option.splits if_splits)

lemma Remove_absent: "keyValMap c k = None \<Longrightarrow> Remove k c = Inr c"
  by (simp add: Remove_def)

lemma Remove2_frame:
  "\<exists>c'. Remove2 k c = Inr c' \<and> maxSize c' = maxSize c \<and> nextAddr c' = nextAddr c \<and>
     keyValMap c' = (case keyValMap c k of None \<Rightarrow> keyValMap c | Some a \<Rightarrow> (keyValMap c)(key (store c a) := None)) \<and>
     curSize c' =
       (case keyValMap c k of
          None \<Rightarrow> curSize c
        | Some a \<Rightarrow> wrap (curSize c - Size (cacheItem (store c a)))) \<and>
     (\<forall>b. cacheItem (store c' b) = cacheItem (store c b) \<and> key (store c' b) = key (store c b))"
proof (cases "keyValMap c k")
  case None
  then show ?thesis by (simp add: Remove2_def)
next
  case (Some a)
  then show ?thesis using lruCacheItem_Remove_Some [of a c] by (auto simp: Remove2_def)
qed

lemma run2_two_entries:
  "final (run2 10 [CallAdd ''a'' (CacheItem 1 4), CallAdd ''b'' (CacheItem 2 4)]) = Some two_entries"
  by (simp add: run2_def final_def CreateLRUCache_def Add2_def admit2_def evict2.simps new_item_def
      lruCacheItem_Add_def two_entries_def set_nxt_def set_prev_def wrap_def)

section \<open>The recency list under unlinking and re-insertion\<close>

lemma path_append: "path n p (xs @ ys) q = (\<exists>r. path n p xs r \<and> path n r ys q)"
  by (induction xs arbitrary: p) auto

lemma path_update: "a \<notin> set xs \<Longrightarrow> path (n(a := v)) p xs q = path n p xs q"
  by (induction xs arbitrary: p) auto

lemma path_snoc: "path n p (xs @ [a]) q = (path n p xs (Some a) \<and> n a = q)"
  by (auto simp: path_append)

lemma prev_set_nxt [simp]: "prev (store (set_nxt a p c) b) = prev (store c b)"
  by (simp add: set_nxt_def)

lemma prev_set_prev [simp]: "prev (store (set_prev a p c) b) = (if b = a then p else prev (store c b))"
  by (simp add: set_prev_def)

lemma nxt_set_prev [simp]: "nxt (store (set_prev a p c) b) = nxt (store c b)"
  by (simp add: set_prev_def)

lemma nxt_set_nxt [simp]: "nxt (store (set_nxt a p c) b) = (if b = a then p else nxt (store c b))"
  by (simp add: set_nxt_def)

lemma links_simps [simp]:
  "links (set_nxt a p c) = (links c)(a := p)"
  "links (set_prev a p c) = links c"
  "links (c\<lparr>head := h\<rparr>) = links c"
  "links (c\<lparr>tail := t\<rparr>) = links c"
  "links (c\<lparr>curSize := n\<rparr>) = links c"
  "links (c\<lparr>keyValMap := m\<rparr>) = links c"
  by (auto simp: links_def set_nxt_def set_prev_def fun_eq_iff)

lemma unlink_recency:
  assumes r: "recency c (ys @ a # zs)"
    and p: "prev (store c a) = (if ys = [] then None else Some (last ys))"
    and u: "lruCacheItem_Remove (Some a) c = Inr c1"
  shows "recency c1 (ys @ zs) \<and> nxt (store c1 a) = nxt (store c a)"
proof -
  let ?n = "links c"
  from r have pth: "path ?n (head c) (ys @ a # zs) None" and d: "distinct (ys @ a # zs)"
    and t: "tail c = Some (last (a # zs))"
    by (simp_all add: recency_def)
  from pth have py: "path ?n (head c) ys (Some a)" and pz: "path ?n (?n a) zs None"
    by (auto simp: path_append)
  have na: "nxt (store c a) = (if zs = [] then None else Some (hd zs))"
    using pz by (cases zs) (auto simp: links_def)
  have la: "links c a = nxt (store c a)" by (simp add: links_def)
  show ?thesis
  proof (cases ys rule: rev_cases)
    case Nil
    then have h: "head c = Some a" and pa: "prev (store c a) = None"
      using py p by simp_all
    show ?thesis
    proof (cases zs)
      case Nil
      with \<open>ys = []\<close> show ?thesis
        using u h pa na t la by (auto simp: lruCacheItem_Remove_def recency_def)
    next
      case (Cons z zs')
      then have "a \<noteq> last zs" "a \<noteq> z" using d by auto
      then show ?thesis
        using u h pa na t pz d Cons la \<open>ys = []\<close>
        by (auto simp: lruCacheItem_Remove_def recency_def Let_def)
    qed
  next
    case (snoc ys' q)
    then have pa: "prev (store c a) = Some q" using p by simp
    have q: "q \<noteq> a" "q \<notin> set ys'" "q \<notin> set zs" "a \<notin> set ys'" "a \<notin> set zs"
      using d snoc by auto
    have py': "path ?n (head c) ys' (Some q)" and nq: "?n q = Some a"
      using py snoc by (simp_all add: path_snoc)
    have hd: "head c \<noteq> Some a"
      using py' q by (cases ys') auto
    let ?m = "?n(q := ?n a)"
    have pm: "path ?m (head c) (ys' @ q # zs) None"
      using py' pz q by (simp add: path_append path_update)
    show ?thesis
    proof (cases zs)
      case Nil
      then show ?thesis
        using u pa na t hd pm q snoc d la
        by (auto simp: lruCacheItem_Remove_def recency_def Let_def)
    next
      case (Cons z zs')
      then have "a \<noteq> last zs" "a \<noteq> z" using d by auto
      then show ?thesis
        using u pa na t hd pm q snoc d Cons la
        by (auto simp: lruCacheItem_Remove_def recency_def Let_def)
    qed
  qed
qed

lemma push_recency:
  assumes r: "recency c xs" and a: "a \<notin> set xs" and e: "xs = [] \<longrightarrow> nxt (store c a) = None"
  shows "recency (lruCacheItem_Add a c) (a # xs)"
proof (cases xs)
  case Nil
  then show ?thesis using r e by (simp add: recency_def lruCacheItem_Add_def Let_def links_def)
next
  case (Cons h xs')
  then have h: "head c = Some h" and pth: "path (links c) (Some h) (h # xs') None"
    using r by (simp_all add: recency_def)
  have "path ((links c)(a \<mapsto> h)) (Some h) (h # xs') None"
    using pth a Cons by (subst path_update) simp_all
  then show ?thesis
    using r a Cons h by (simp add: recency_def lruCacheItem_Add_def Let_def)
qed

section \<open>The same-value shortcut of the second Add\<close>

lemma Add2_same_value_moves_to_head:
  assumes k: "keyValMap c k = Some a" and v: "cacheItem (store c a) = v"
    and r: "recency c (ys @ a # zs)"
    and p: "prev (store c a) = (if ys = [] then None else Some (last ys))"
  shows "\<exists>c'. Add2 k v c = Some (Inr (None, c')) \<and> recency c' (a # ys @ zs)"
proof -
  obtain c1 where u: "lruCacheItem_Remove (Some a) c = Inr c1"
    and f: "\<forall>b. cacheItem (store c1 b) = cacheItem (store c b) \<and> key (store c1 b) = key (store c b)"
    using lruCacheItem_Remove_Some [of a c] by blast
  have A: "Add2 k v c = Some (Inr (None, lruCacheItem_Add a c1))"
    using k v u f by (simp add: Add2_def)
  from unlink_recency [OF r p u]
  have r1: "recency c1 (ys @ zs)" and n1: "nxt (store c1 a) = nxt (store c a)" by simp_all
  have d: "a \<notin> set (ys @ zs)" using r by (simp add: recency_def)
  have "ys @ zs = [] \<longrightarrow> nxt (store c1 a) = None"
    using r n1 by (auto simp: recency_def links_def)
  from push_recency [OF r1 d this] show ?thesis using A by simp
qed

text \<open>
  What the same-value branch keeps, on every state whose counter is a 64-bit value: the
  call returns success whatever the size of \<open>v\<close> and the fill of the cache, the entry is
  the new head, and the size counter, the index, the capacity and the key and payload of
  every entry are as before.
\<close>

lemma Add2_same_value_frame:
  assumes "keyValMap c k = Some a" and "key (store c a) = k" and "cacheItem (store c a) = v"
    and "- (2 ^ 63) \<le> curSize c" and "curSize c < 2 ^ 63"
  shows "returns (Add2 k v c) = Some (Inr None) \<and>
         map_option curSize (final (Add2 k v c)) = Some (curSize c) \<and>
         map_option keyValMap (final (Add2 k v c)) = Some (keyValMap c) \<and>
         map_option maxSize (final (Add2 k v c)) = Some (maxSize c) \<and>
         map_option nextAddr (final (Add2 k v c)) = Some (nextAddr c) \<and>
         map_option head (final (Add2 k v c)) = Some (Some a) \<and>
         map_option (\<lambda>c'. cacheItem \<circ> store c') (final (Add2 k v c)) = Some (cacheItem \<circ> store c) \<and>
         map_option (\<lambda>c'. key \<circ> store c') (final (Add2 k v c)) = Some (key \<circ> store c)"
proof -
  obtain c1 where r: "lruCacheItem_Remove (Some a) c = Inr c1"
    and m: "keyValMap c1 = (keyValMap c)(key (store c a) := None)"
    and s: "curSize c1 = wrap (curSize c - Size (cacheItem (store c a)))"
    and x: "maxSize c1 = maxSize c" and n: "nextAddr c1 = nextAddr c"
    and f: "\<forall>b. cacheItem (store c1 b) = cacheItem (store c b) \<and> key (store c1 b) = key (store c b)"
    using lruCacheItem_Remove_Some [of a c] by blast
  have A: "Add2 k v c = Some (Inr (None, lruCacheItem_Add a c1))"
    using assms r f by (simp add: Add2_def)
  have "keyValMap (lruCacheItem_Add a c1) = keyValMap c"
    using assms m f by (auto simp: lruCacheItem_Add_fields)
  moreover have "curSize (lruCacheItem_Add a c1) = curSize c"
    using s f assms(4,5) by (simp add: lruCacheItem_Add_fields wrap_cancel)
  ultimately show ?thesis
    using A x n f by (simp add: returns_def final_def lruCacheItem_Add_fields fun_eq_iff)
qed

lemma Add_oversize:
  "maxSize c < Size v \<Longrightarrow>
     Add k v c = Some (map_sum id (\<lambda>c'. (Some ErrorExceedsMaxSize, snd (new_item k v c'))) (Remove k c))"
  by (cases "Remove k c") (simp_all add: Add_def Remove_frame case_prod_beta)

lemma Add2_oversize:
  assumes "maxSize c < Size v" and "\<forall>a. keyValMap c k = Some a \<longrightarrow> cacheItem (store c a) \<noteq> v"
  shows "Add2 k v c = Some (map_sum id (Pair (Some ErrorExceedsMaxSize)) (Remove2 k c))"
proof (cases "keyValMap c k")
  case None
  then show ?thesis using assms by (simp add: Add2_def Remove2_def admit2_def)
next
  case (Some a)
  obtain c1 where r: "lruCacheItem_Remove (Some a) c = Inr c1" and x: "maxSize c1 = maxSize c"
    and f: "\<forall>b. cacheItem (store c1 b) = cacheItem (store c b) \<and> key (store c1 b) = key (store c b)"
    using lruCacheItem_Remove_Some [of a c] by blast
  show ?thesis using Some assms r x f by (auto simp: Add2_def Remove2_def admit2_def)
qed

section \<open>Add of an oversized value\<close>

text \<open>
  Claim C1, as amended. When \<^verbatim>\<open>v.Size()\<close> exceeds the capacity, \<^verbatim>\<open>Add(k, v)\<close> is
  \<^verbatim>\<open>Remove(k)\<close> followed by the error return: in lrucache.go the call removes \<open>k\<close> first
  (line 80) and allocates the item it then drops; in the second source file the entry under
  \<open>k\<close> is unlinked (line 144) before the size check, unless it holds the very value
  supplied. So whenever the call returns, the index has lost \<open>k\<close>, the capacity is
  unchanged and every (already allocated) entry keeps its key and payload. Only when \<open>k\<close>
  was absent is the cache left as it was.
\<close>

theorem Add_oversize_removes_key:
  assumes "maxSize c < Size v"
  shows "Add k v c =
           Some (map_sum id (\<lambda>c1. (Some ErrorExceedsMaxSize, snd (new_item k v c1))) (Remove k c)) \<and>
         (\<forall>c'. final (Add k v c) = Some c' \<longrightarrow>
            keyValMap c' = (keyValMap c)(k := None) \<and> maxSize c' = maxSize c \<and>
            (\<forall>b. b \<noteq> nextAddr c \<longrightarrow>
               cacheItem (store c' b) = cacheItem (store c b) \<and> key (store c' b) = key (store c b))) \<and>
         ((\<forall>a. keyValMap c k = Some a \<longrightarrow> key (store c a) = k \<and> cacheItem (store c a) \<noteq> v) \<longrightarrow>
            Add2 k v c = Some (map_sum id (Pair (Some ErrorExceedsMaxSize)) (Remove2 k c)) \<and>
            (\<exists>c'. final (Add2 k v c) = Some c' \<and>
               keyValMap c' = (keyValMap c)(k := None) \<and> maxSize c' = maxSize c \<and>
               (\<forall>b. cacheItem (store c' b) = cacheItem (store c b) \<and> key (store c' b) = key (store c b)))) \<and>
         (keyValMap c k = None \<longrightarrow>
            Add k v c = Some (Inr (Some ErrorExceedsMaxSize, snd (new_item k v c))) \<and>
            Add2 k v c = Some (Inr (Some ErrorExceedsMaxSize, c)))"
proof (intro conjI allI impI)
  show A: "Add k v c =
      Some (map_sum id (\<lambda>c1. (Some ErrorExceedsMaxSize, snd (new_item k v c1))) (Remove k c))"
    by (rule Add_oversize [OF assms])
  {
    fix c' assume f: "final (Add k v c) = Some c'"
    then obtain c1 where r: "Remove k c = Inr c1" and c': "c' = snd (new_item k v c1)"
      unfolding A by (cases "Remove k c") (auto simp: final_def)
    show "keyValMap c' = (keyValMap c)(k := None)" and "maxSize c' = maxSize c"
      using r c' by (simp_all add: Remove_frame)
    fix b assume "b \<noteq> nextAddr c"
    then show "cacheItem (store c' b) = cacheItem (store c b)" and "key (store c' b) = key (store c b)"
      using r c' by (simp_all add: Remove_frame)
  }
  {
    assume h: "\<forall>a. keyValMap c k = Some a \<longrightarrow> key (store c a) = k \<and> cacheItem (store c a) \<noteq> v"
    then show B: "Add2 k v c = Some (map_sum id (Pair (Some ErrorExceedsMaxSize)) (Remove2 k c))"
      using assms by (simp add: Add2_oversize)
    obtain c1 where r: "Remove2 k c = Inr c1" and x: "maxSize c1 = maxSize c"
      and m: "keyValMap c1 = (case keyValMap c k of None \<Rightarrow> keyValMap c | Some a \<Rightarrow> (keyValMap c)(key (store c a) := None))"
      and f: "\<forall>b. cacheItem (store c1 b) = cacheItem (store c b) \<and> key (store c1 b) = key (store c b)"
      using Remove2_frame [of k c] by blast
    have "keyValMap c1 = (keyValMap c)(k := None)"
      using m h by (auto split: option.splits)
    then show "\<exists>c'. final (Add2 k v c) = Some c' \<and>
               keyValMap c' = (keyValMap c)(k := None) \<and> maxSize c' = maxSize c \<and>
               (\<forall>b. cacheItem (store c' b) = cacheItem (store c b) \<and> key (store c' b) = key (store c b))"
      using B r x f by (simp add: final_def)
  }
  {
    assume n: "keyValMap c k = None"
    show "Add k v c = Some (Inr (Some ErrorExceedsMaxSize, snd (new_item k v c)))"
      using A n by (simp add: Remove_absent)
    show "Add2 k v c = Some (Inr (Some ErrorExceedsMaxSize, c))"
      using assms n by (simp add: Add2_def admit2_def)
  }
qed

theorem Add_oversize_removes_key_witness:
  "maxSize two_entries < Size (CacheItem 9 20) \<and>
   returns (Add ''a'' (CacheItem 9 20) two_entries) = Some (Inr (Some ErrorExceedsMaxSize)) \<and>
   map_option (\<lambda>c'. (keyValMap c' ''a'', keyValMap c' ''b'', maxSize c'))
     (final (Add ''a'' (CacheItem 9 20) two_entries)) = Some (None, Some 1, 10) \<and>
   returns (Add2 ''a'' (CacheItem 9 20) two_entries) = Some (Inr (Some ErrorExceedsMaxSize)) \<and>
   map_option (\<lambda>c'. (keyValMap c' ''a'', keyValMap c' ''b'', maxSize c'))
     (final (Add2 ''a'' (CacheItem 9 20) two_entries)) = Some (None, Some 1, 10)"
proof -
  have big: "maxSize two_entries < Size (CacheItem 9 20)"
    by (simp add: two_entries_def)
  have r: "\<exists>c1. Remove ''a'' two_entries = Inr c1"
    by (simp add: Remove_def two_entries_def Let_def)
  have k: "\<forall>a. keyValMap two_entries ''a'' = Some a \<longrightarrow>
      key (store two_entries a) = ''a'' \<and> cacheItem (store two_entries a) \<noteq> CacheItem 9 20"
    by (simp add: two_entries_def)
  have m: "keyValMap two_entries ''b'' = Some 1" "maxSize two_entries = 10"
    by (simp_all add: two_entries_def)
  note T = Add_oversize_removes_key [OF big, of "''a''"]
  from r obtain c1 where c1: "Remove ''a'' two_entries = Inr c1" by blast
  have A: "Add ''a'' (CacheItem 9 20) two_entries =
      Some (Inr (Some ErrorExceedsMaxSize, snd (new_item ''a'' (CacheItem 9 20) c1)))"
    using T c1 by simp
  have fA: "final (Add ''a'' (CacheItem 9 20) two_entries) = Some (snd (new_item ''a'' (CacheItem 9 20) c1))"
    using A by (simp add: final_def)
  from T k obtain c2 where B: "Add2 ''a'' (CacheItem 9 20) two_entries =
      Some (map_sum id (Pair (Some ErrorExceedsMaxSize)) (Remove2 ''a'' two_entries))"
    and fB: "final (Add2 ''a'' (CacheItem 9 20) two_entries) = Some c2"
    and mB: "keyValMap c2 = (keyValMap two_entries)(''a'' := None)" "maxSize c2 = maxSize two_entries"
    by blast
  have rB: "returns (Add2 ''a'' (CacheItem 9 20) two_entries) = Some (Inr (Some ErrorExceedsMaxSize))"
    using B fB by (cases "Remove2 ''a'' two_entries") (auto simp: returns_def final_def)
  have mA: "keyValMap (snd (new_item ''a'' (CacheItem 9 20) c1)) = (keyValMap two_entries)(''a'' := None)"
    "maxSize (snd (new_item ''a'' (CacheItem 9 20) c1)) = maxSize two_entries"
    using T fA by simp_all
  show ?thesis
    using big A fA rB fB mA mB m by (simp add: returns_def)
qed

text \<open>
  The claim as stated fails in both source files: after a successful \<^verbatim>\<open>Add("k", x)\<close> the
  oversized \<^verbatim>\<open>Add("k", y)\<close> returns the error and \<^verbatim>\<open>Get("k")\<close> then finds nothing.
\<close>

theorem Add_oversize_counterexample:
  "returns (run 10 [CallAdd ''k'' (CacheItem 1 4), CallAdd ''k'' (CacheItem 2 20), CallGet ''k'']) =
     Some (Inr [RetAdd None, RetAdd (Some ErrorExceedsMaxSize), RetGet None False]) \<and>
   returns (run2 10 [CallAdd ''k'' (CacheItem 1 4), CallAdd ''k'' (CacheItem 2 20), CallGet ''k'']) =
     Some (Inr [RetAdd None, RetAdd (Some ErrorExceedsMaxSize), RetGet None False])"
  by code_simp

section \<open>Running the code on concrete calls\<close>

text \<open>One turn of each eviction loop, guarded by the loop condition.\<close>

lemma evict_stop: "\<not> maxSize c < wrap (curSize c + Size v) \<Longrightarrow> evict v c = Some (Inr c)"
  by (subst evict.simps) simp

lemma evict_step: "maxSize c < wrap (curSize c + Size v) \<Longrightarrow>
  evict v c =
    (case tail c of
       None \<Rightarrow> Some (Inl NilDereference)
     | Some t \<Rightarrow>
         let c1 = c\<lparr>keyValMap := (keyValMap c)(key (store c t) := None)\<rparr>;
             c2 = c1\<lparr>curSize := wrap (curSize c1 - Size (cacheItem (store c1 t)))\<rparr>
         in (case prev (store c2 t) of
               Some newTail \<Rightarrow> evict v ((set_nxt newTail None c2)\<lparr>tail := Some newTail\<rparr>)
             | None \<Rightarrow> evict v (c2\<lparr>head := None, tail := None\<rparr>)))"
  by (subst evict.simps) simp

lemma evict2_stop: "\<not> maxSize c < wrap (curSize c + Size v) \<Longrightarrow> evict2 v c = Some (Inr c)"
  by (subst evict2.simps) simp

lemma evict2_step: "maxSize c < wrap (curSize c + Size v) \<Longrightarrow>
  evict2 v c = (case lruCacheItem_Remove (tail c) c of Inl p \<Rightarrow> Some (Inl p) | Inr c1 \<Rightarrow> evict2 v c1)"
  by (subst evict2.simps) simp

lemmas exec =
  run_def run2_def CreateLRUCache_def returns_def final_def presence_def present_def scenario_adds_def
  Add_def Get_def Remove_def link_head_def evict_stop evict_step
  Add2_def Get2_def Remove2_def admit2_def evict2_stop evict2_step lruCacheItem_Add_def
  lruCacheItem_Remove_def new_item_def set_nxt_def set_prev_def Let_def wrap_def

section \<open>The test scenario\<close>

text \<open>
  Claim C2 on lrucache.go. Its \<^verbatim>\<open>Add\<close> never adds the size of the new item to
  \<^verbatim>\<open>curSize\<close>, so the eviction loop never runs: after the eleven calls of the test the
  key "0" is still in the index, and after \<^verbatim>\<open>Get("1")\<close> and \<^verbatim>\<open>Add("11", x)\<close> so is the
  key "2". The repository's test expects both to be gone.
\<close>

theorem lrucache_scenario_keeps_old_keys:
  "presence [''0'', ''1'', ''10''] (run 100 scenario_adds) = Some [True, True, True] \<and>
   presence [''1'', ''2'']
     (run 100 (scenario_adds @ [CallGet ''1'', CallAdd ''11'' (CacheItem 11 10)])) = Some [True, True]"
  by (simp add: exec)

text \<open>The second source file does what the scenario says.\<close>

lemma second_file_scenario:
  "presence [''0'', ''10'', ''9'', ''8'', ''7'', ''6'', ''5'', ''4'', ''3'', ''2'', ''1'']
     (run2 100 scenario_adds)
     = Some [False, True, True, True, True, True, True, True, True, True, True] \<and>
   presence [''1'', ''2'']
     (run2 100 (scenario_adds @ [CallGet ''1'', CallAdd ''11'' (CacheItem 11 10)])) = Some [True, False]"
  by (simp add: exec)

section \<open>The size counter\<close>

text \<open>
  Claim C3 on lrucache.go: after one \<^verbatim>\<open>Add\<close> of a payload of size 10 to a fresh cache of
  capacity 100 the index holds an entry of size 10 and \<^verbatim>\<open>curSize\<close> is still 0.
\<close>

theorem lrucache_curSize_is_not_index_size:
  "map_option (\<lambda>c. (curSize c, indexSize c)) (final (run 100 [CallAdd ''0'' (CacheItem 0 10)]))
     = Some (0, 10)"
  by (simp add: exec indexSize_def)

text \<open>
  The second source file loses the equation too, later: once its list holds an entry that
  has left the index, evicting that entry subtracts a size the index no longer has. Here
  \<^verbatim>\<open>curSize\<close> is 10 while the index holds payloads of sizes 10 and 4.
\<close>

lemma second_file_curSize_is_not_index_size:
  "map_option
     (\<lambda>c. (curSize c, map (\<lambda>k. map_option (\<lambda>a. Size (cacheItem (store c a))) (keyValMap c k)) [''a'', ''b'']))
     (final (run2 10 [CallAdd ''a'' (CacheItem 1 4), CallAdd ''b'' (CacheItem 2 4),
        CallAdd ''a'' (CacheItem 1 4), CallAdd ''a'' (CacheItem 3 10), CallAdd ''b'' (CacheItem 2 4)]))
     = Some (10, [Some 10, Some 4])"
  by (simp add: exec)

section \<open>The shape of the recency list\<close>

text \<open>
  Claim C4 on both source files, after \<^verbatim>\<open>Add("a", x)\<close>, \<^verbatim>\<open>Add("b", y)\<close>, \<^verbatim>\<open>Get("a")\<close>.
  In lrucache.go \<^verbatim>\<open>Get\<close> moves the tail entry to the head without updating \<^verbatim>\<open>tail\<close>:
  the tail then has a successor. In the second source file the item method \<^verbatim>\<open>Add\<close> leaves
  the old \<^verbatim>\<open>prev\<close> of the re-inserted item in place: the head then has a predecessor.
\<close>

theorem recency_list_inconsistent_after_Get:
  "map_option tail_has_no_succ
     (final (run 100 [CallAdd ''a'' (CacheItem 1 10), CallAdd ''b'' (CacheItem 2 10), CallGet ''a'']))
     = Some False \<and>
   map_option head_has_no_pred
     (final (run2 100 [CallAdd ''a'' (CacheItem 1 10), CallAdd ''b'' (CacheItem 2 10), CallGet ''a'']))
     = Some False"
  by (simp add: exec head_has_no_pred_def tail_has_no_succ_def)

section \<open>Eviction with no tail\<close>

text \<open>
  Claim C6 on the second source file. After five calls of \<^verbatim>\<open>Add\<close> on a cache of capacity
  10 the tail is nil although the size counter is 6; a payload of size 10 passes the size
  check, the loop condition holds, and the loop body dereferences the nil tail.
\<close>

theorem second_file_evicts_with_nil_tail:
  "map_option (\<lambda>c. (tail c, maxSize c < curSize c + Size (CacheItem 3 10), Size (CacheItem 3 10) \<le> maxSize c))
     (final (run2 10 [CallAdd ''a'' (CacheItem 1 4), CallAdd ''b'' (CacheItem 2 4),
        CallAdd ''a'' (CacheItem 1 4), CallAdd ''a'' (CacheItem 3 10), CallAdd ''b'' (CacheItem 4 10)]))
     = Some (None, True, True) \<and>
   returns (run2 10 [CallAdd ''a'' (CacheItem 1 4), CallAdd ''b'' (CacheItem 2 4),
        CallAdd ''a'' (CacheItem 1 4), CallAdd ''a'' (CacheItem 3 10), CallAdd ''b'' (CacheItem 4 10),
        CallAdd ''a'' (CacheItem 3 10)])
     = Some (Inl NilDereference)"
  by (simp add: exec)

section \<open>The same-value shortcut on a list with a stale link\<close>

text \<open>
  Claim C9 on the second source file. After \<^verbatim>\<open>Add("a", x)\<close>, \<^verbatim>\<open>Add("b", y)\<close>,
  \<^verbatim>\<open>Add("a", x)\<close> on a cache of capacity 10 the entry of "a" (address 0) is the head, the
  list is "a" then "b", and \<^verbatim>\<open>prev\<close> of the head still points at the entry of "b"
  (address 1). A further \<^verbatim>\<open>Add("a", x)\<close> takes the same-value branch and returns success,
  but it does more than keep the entry at the head: unlinking writes through the stale
  \<^verbatim>\<open>prev\<close> and makes the entry of "b" its own successor, so the list is no longer "a"
  then "b" but runs in a cycle. Three more calls of \<^verbatim>\<open>Add\<close> with payloads of size 6 then
  end in a nil dereference, where without the fourth call they all succeed.
\<close>

theorem same_value_Add_breaks_recency_list:
  "map_option (\<lambda>c. (head c, recency c [0, 1], nxt (store c 1), prev (store c 0)))
     (final (run2 10 [CallAdd ''a'' (CacheItem 1 4), CallAdd ''b'' (CacheItem 2 4),
        CallAdd ''a'' (CacheItem 1 4)]))
     = Some (Some 0, True, None, Some 1) \<and>
   returns (run2 10 [CallAdd ''a'' (CacheItem 1 4), CallAdd ''b'' (CacheItem 2 4),
        CallAdd ''a'' (CacheItem 1 4), CallAdd ''a'' (CacheItem 1 4)])
     = Some (Inr [RetAdd None, RetAdd None, RetAdd None, RetAdd None]) \<and>
   map_option (\<lambda>c. (head c, recency c [0, 1], nxt (store c 1)))
     (final (run2 10 [CallAdd ''a'' (CacheItem 1 4), CallAdd ''b'' (CacheItem 2 4),
        CallAdd ''a'' (CacheItem 1 4), CallAdd ''a'' (CacheItem 1 4)]))
     = Some (Some 0, False, Some 1) \<and>
   returns (run2 10 [CallAdd ''a'' (CacheItem 1 4), CallAdd ''b'' (CacheItem 2 4),
        CallAdd ''a'' (CacheItem 1 4),
        CallAdd ''c'' (CacheItem 3 6), CallAdd ''d'' (CacheItem 4 6), CallAdd ''e'' (CacheItem 5 6)])
     = Some (Inr [RetAdd None, RetAdd None, RetAdd None, RetAdd None, RetAdd None, RetAdd None]) \<and>
   returns (run2 10 [CallAdd ''a'' (CacheItem 1 4), CallAdd ''b'' (CacheItem 2 4),
        CallAdd ''a'' (CacheItem 1 4), CallAdd ''a'' (CacheItem 1 4),
        CallAdd ''c'' (CacheItem 3 6), CallAdd ''d'' (CacheItem 4 6), CallAdd ''e'' (CacheItem 5 6)])
     = Some (Inl NilDereference)"
  by (simp add: exec recency_def links_def)

section \<open>The error value of Add\<close>

text \<open>
  A call of \<^verbatim>\<open>Add\<close> that returns, returns the error exactly when the value is larger than
  the capacity; in the second source file this needs the entry already under the key to
  fit, as every entry admitted earlier does.
\<close>

lemma Add_error_iff_oversize:
  assumes "Add k v c = Some (Inr (e, c'))"
  shows "(e = Some ErrorExceedsMaxSize) = (maxSize c < Size v)"
proof -
  from assms obtain c1 where r: "Remove k c = Inr c1"
    by (cases "Remove k c") (auto simp: Add_def)
  have x: "maxSize c1 = maxSize c" using Remove_frame(2) [OF r] .
  show ?thesis
    using assms r x
    by (auto simp: Add_def case_prod_beta split: if_splits option.splits sum.splits)
qed

lemma admit2_error_iff_oversize:
  assumes "admit2 k v c = Some (Inr (e, c'))"
  shows "(e = Some ErrorExceedsMaxSize) = (maxSize c < Size v)"
  using assms
  by (auto simp: admit2_def case_prod_beta split: if_splits option.splits sum.splits)

lemma Add2_error_iff_oversize:
  assumes a: "Add2 k v c = Some (Inr (e, c'))"
    and s: "\<forall>a. keyValMap c k = Some a \<longrightarrow> Size (cacheItem (store c a)) \<le> maxSize c"
  shows "(e = Some ErrorExceedsMaxSize) = (maxSize c < Size v)"
proof (cases "keyValMap c k")
  case None
  then show ?thesis using a admit2_error_iff_oversize [of k v c e c'] by (simp add: Add2_def)
next
  case (Some t)
  obtain c1 where r: "lruCacheItem_Remove (Some t) c = Inr c1"
    and x: "maxSize c1 = maxSize c"
    and f: "\<forall>b. cacheItem (store c1 b) = cacheItem (store c b) \<and> key (store c1 b) = key (store c b)"
    using lruCacheItem_Remove_Some [of t c] by blast
  show ?thesis
  proof (cases "v = cacheItem (store c1 t)")
    case True
    then have "e = None" using a Some r by (simp add: Add2_def)
    moreover have "Size v \<le> maxSize c" using True f s Some by simp
    ultimately show ?thesis by simp
  next
    case False
    then have "admit2 k v c1 = Some (Inr (e, c'))" using a Some r by (simp add: Add2_def)
    from admit2_error_iff_oversize [OF this] show ?thesis using x by simp
  qed
qed

section \<open>Calls that do not return\<close>

text \<open>
  Claim C8 on lrucache.go. After \<^verbatim>\<open>Add("a", x)\<close>, \<^verbatim>\<open>Add("b", y)\<close>, \<^verbatim>\<open>Get("a")\<close> the
  entry of "b" is last in the list but is not \<^verbatim>\<open>tail\<close>; \<^verbatim>\<open>Remove("b")\<close> takes the
  branch for an inner entry and dereferences its nil \<^verbatim>\<open>next\<close>. \<^verbatim>\<open>Add("b", z)\<close> with a
  payload that fits starts with the same \<^verbatim>\<open>Remove\<close> and panics too.
\<close>

theorem lrucache_Remove_and_Add_panic:
  "returns (run 10 [CallAdd ''a'' (CacheItem 1 4), CallAdd ''b'' (CacheItem 2 4), CallGet ''a'',
        CallRemove ''b''])
     = Some (Inl NilDereference) \<and>
   returns (run 10 [CallAdd ''a'' (CacheItem 1 4), CallAdd ''b'' (CacheItem 2 4), CallGet ''a'',
        CallAdd ''b'' (CacheItem 3 4)])
     = Some (Inl NilDereference)"
  by (simp add: exec)

section \<open>The two source files compared\<close>

text \<open>
  Claim C10. On the calls of the test followed by \<^verbatim>\<open>Get("0")\<close> the two source files
  return different values: lrucache.go still finds the payload, the second source file has
  evicted it.
\<close>

theorem source_files_disagree_on_scenario:
  "returns (run 100 (scenario_adds @ [CallGet ''0''])) =
     Some (Inr [RetAdd None, RetAdd None, RetAdd None, RetAdd None, RetAdd None, RetAdd None,
        RetAdd None, RetAdd None, RetAdd None, RetAdd None, RetAdd None,
        RetGet (Some (CacheItem 0 10)) True]) \<and>
   returns (run2 100 (scenario_adds @ [CallGet ''0''])) =
     Some (Inr [RetAdd None, RetAdd None, RetAdd None, RetAdd None, RetAdd None, RetAdd None,
        RetAdd None, RetAdd None, RetAdd None, RetAdd None, RetAdd None,
        RetGet None False])"
  by (simp add: exec)

section \<open>The capacity bound\<close>














text \<open>
  Beyond that bound the counter wraps and the inequality is lost, in both source files:
  on lrucache.go with capacity \<open>2 ^ 62 - 1\<close> three rounds of \<^verbatim>\<open>Add\<close> and \<^verbatim>\<open>Remove\<close> of a
  payload of that size leave the counter at \<open>2 ^ 62 + 3\<close>; on the second source file with
  capacity \<open>2 ^ 62\<close> two payloads of that size and one of size 1 are all admitted, and
  removing the first leaves the counter at \<open>2 ^ 62 + 1\<close>.
\<close>

lemma curSize_wraps_past_capacity:
  "map_option curSize
     (final (run (2 ^ 62 - 1)
        [CallAdd ''a'' (CacheItem 1 (2 ^ 62 - 1)), CallRemove ''a'',
         CallAdd ''a'' (CacheItem 1 (2 ^ 62 - 1)), CallRemove ''a'',
         CallAdd ''a'' (CacheItem 1 (2 ^ 62 - 1)), CallRemove ''a''])) = Some (2 ^ 62 + 3) \<and>
   map_option curSize
     (final (run2 (2 ^ 62)
        [CallAdd ''a'' (CacheItem 1 (2 ^ 62)), CallAdd ''b'' (CacheItem 2 (2 ^ 62)),
         CallAdd ''c'' (CacheItem 3 1), CallRemove ''a''])) = Some (2 ^ 62 + 1)"
  by (simp add: exec)


section \<open>Capacities that admit nothing\<close>

lemma run_from_rejects:
  assumes "\<And>x c. x \<in> set xs \<Longrightarrow> E c \<Longrightarrow> \<exists>c'. st x c = Some (Inr (rejected x, c')) \<and> E c'"
    and "E c"
  shows "\<exists>c'. run_from st xs c = Some (Inr (map rejected xs, c')) \<and> E c'"
  using assms
proof (induction xs arbitrary: c)
  case Nil
  then show ?case by simp
next
  case (Cons x xs)
  obtain c1 where s: "st x c = Some (Inr (rejected x, c1))" and c1: "E c1"
    using Cons.prems(1) [of x c] Cons.prems(2) by auto
  have "\<And>y c. y \<in> set xs \<Longrightarrow> E c \<Longrightarrow> \<exists>c'. st y c = Some (Inr (rejected y, c')) \<and> E c'"
    using Cons.prems(1) by (meson list.set_intros(2))
  from Cons.IH [OF this c1] obtain c2
    where "run_from st xs c1 = Some (Inr (map rejected xs, c2))" and "E c2" by blast
  then show ?case using s by simp
qed

lemma step_rejects:
  assumes "keyValMap c = Map.empty" and "maxSize c < 0" and "nonneg_call x"
  shows "\<exists>c'. step x c = Some (Inr (rejected x, c')) \<and> keyValMap c' = Map.empty \<and> maxSize c' = maxSize c"
proof (cases x)
  case (CallAdd k v)
  then have "maxSize c < Size v" using assms by simp
  then have "Add k v c = Some (Inr (Some ErrorExceedsMaxSize, snd (new_item k v c)))"
    using Add_oversize [of c v k] assms(1) by (simp add: Remove_absent)
  then show ?thesis using CallAdd assms by simp
next
  case (CallGet k)
  then show ?thesis using assms by (simp add: Get_def)
next
  case (CallRemove k)
  then show ?thesis using assms by (simp add: Remove_def)
qed

lemma step2_rejects:
  assumes "keyValMap c = Map.empty" and "maxSize c < 0" and "nonneg_call x"
  shows "\<exists>c'. step2 x c = Some (Inr (rejected x, c')) \<and> keyValMap c' = Map.empty \<and> maxSize c' = maxSize c"
proof (cases x)
  case (CallAdd k v)
  then have "maxSize c < Size v" using assms by simp
  then have "Add2 k v c = Some (Inr (Some ErrorExceedsMaxSize, c))"
    using assms(1) by (simp add: Add2_def admit2_def)
  then show ?thesis using CallAdd assms by simp
next
  case (CallGet k)
  then show ?thesis using assms by (simp add: Get2_def)
next
  case (CallRemove k)
  then show ?thesis using assms by (simp add: Remove2_def)
qed

text \<open>
  Claim C5, as amended: on a cache constructed with a negative capacity every sequence of
  public calls with payloads of non-negative \<^verbatim>\<open>Size()\<close> returns, every \<^verbatim>\<open>Add\<close> in it
  fails with \<^verbatim>\<open>ErrorExceedsMaxSize\<close>, every \<^verbatim>\<open>Get\<close> finds nothing and the index stays
  empty, in both source files.
\<close>

theorem negative_capacity_admits_nothing:
  assumes "cap < 0" and "list_all nonneg_call xs"
  shows "returns (run cap xs) = Some (Inr (map rejected xs)) \<and>
         map_option keyValMap (final (run cap xs)) = Some Map.empty \<and>
         returns (run2 cap xs) = Some (Inr (map rejected xs)) \<and>
         map_option keyValMap (final (run2 cap xs)) = Some Map.empty"
proof -
  let ?E = "\<lambda>c::lruCache. keyValMap c = Map.empty \<and> maxSize c = cap"
  have E0: "?E (CreateLRUCache cap)" by (simp add: CreateLRUCache_def)
  have "\<exists>c'. run_from step xs (CreateLRUCache cap) = Some (Inr (map rejected xs, c')) \<and> ?E c'"
  proof (rule run_from_rejects [where E = ?E, OF _ E0])
    fix x c assume "x \<in> set xs" "?E c"
    then show "\<exists>c'. step x c = Some (Inr (rejected x, c')) \<and> ?E c'"
      using step_rejects [of c x] assms by (auto simp: list_all_iff)
  qed
  moreover have "\<exists>c'. run_from step2 xs (CreateLRUCache cap) = Some (Inr (map rejected xs, c')) \<and> ?E c'"
  proof (rule run_from_rejects [where E = ?E, OF _ E0])
    fix x c assume "x \<in> set xs" "?E c"
    then show "\<exists>c'. step2 x c = Some (Inr (rejected x, c')) \<and> ?E c'"
      using step2_rejects [of c x] assms by (auto simp: list_all_iff)
  qed
  ultimately show ?thesis
    by (auto simp: run_def run2_def returns_def final_def)
qed

theorem negative_capacity_admits_nothing_witness:
  "(- 1 :: int) < 0 \<and>
   list_all nonneg_call [CallAdd ''a'' (CacheItem 1 0), CallAdd ''b'' (CacheItem 2 5), CallGet ''a''] \<and>
   returns (run (- 1) [CallAdd ''a'' (CacheItem 1 0), CallAdd ''b'' (CacheItem 2 5), CallGet ''a'']) =
     Some (Inr [RetAdd (Some ErrorExceedsMaxSize), RetAdd (Some ErrorExceedsMaxSize), RetGet None False]) \<and>
   returns (run2 (- 1) [CallAdd ''a'' (CacheItem 1 0), CallAdd ''b'' (CacheItem 2 5), CallGet ''a'']) =
     Some (Inr [RetAdd (Some ErrorExceedsMaxSize), RetAdd (Some ErrorExceedsMaxSize), RetGet None False])"
  using negative_capacity_admits_nothing
    [of "- 1" "[CallAdd ''a'' (CacheItem 1 0), CallAdd ''b'' (CacheItem 2 5), CallGet ''a'']"]
  by simp

text \<open>
  The claim as stated includes capacity 0, where it fails: the check is
  \<^verbatim>\<open>v.Size() > this.maxSize\<close>, so a payload of size 0 is admitted.
\<close>

theorem zero_capacity_admits_empty_value:
  "returns (run 0 [CallAdd ''a'' (CacheItem 1 0)]) = Some (Inr [RetAdd None]) \<and>
   presence [''a''] (run 0 [CallAdd ''a'' (CacheItem 1 0)]) = Some [True] \<and>
   returns (run2 0 [CallAdd ''a'' (CacheItem 1 0)]) = Some (Inr [RetAdd None]) \<and>
   presence [''a''] (run2 0 [CallAdd ''a'' (CacheItem 1 0)]) = Some [True]"
  by (simp add: exec)

end
